theory Spec2Isabelle
  imports Complex_Main "HOL-Library.Word"
begin

section \<open>The PID tuning loop of \<open>operatorControl\<close> (src/opcontrol.c)\<close>

text \<open>
  \<open>operatorControl\<close> declares its variables once (lines 60 to 101) and then runs the
  body of \<open>while (true)\<close> (lines 103 to 192) for ever. The model keeps the local
  variables in a record, takes what the body obtains from the outside in one cycle
  (button edges, the joystick axis, the sensor reading) as a second record, and makes
  one pass through the body a function from the old variables to the new ones together
  with the speed handed to \<open>motorSet\<close>.

  Conventions of the model:
  \<^item> a C \<open>float\<close> is a \<^typ>\<open>real\<close>: the arithmetic is exact, so the rounding of binary32
    and its infinities and NaN are outside the model;
  \<^item> \<open>size_t\<close> is a 32-bit unsigned word, as on the ARM target of the code;
  \<^item> where C leaves the behaviour undefined (reading \<open>increments\<close> past its end,
    converting a \<open>float\<close> to an \<open>int\<close> that cannot hold it, \<open>abs(INT_MIN)\<close>) the model
    returns \<open>None\<close>;
  \<^item> the functions that the headers \<open>main.h\<close> and \<open>togglebtn.h\<close> declare are not part of
    the file: what \<open>toggleBtnGet\<close>, \<open>joystickGetAnalog\<close> and \<open>analogRead\<close> return in a
    cycle is an input of the model, \<open>motorSet\<close> takes its speed as an \<open>int\<close>, and \<open>abs\<close> is
    the \<open>int\<close> function of the C library.
\<close>

subsection \<open>What one cycle reads from the outside\<close>

datatype joy_dir = JOY_DOWN | JOY_LEFT | JOY_UP | JOY_RIGHT

text \<open>
  \<open>pressed inp g d\<close> stands for \<open>toggleBtnGet(1, g, d) == BUTTON_PRESSED\<close> in this cycle,
  \<open>joystickGetAnalog\<close> for the value of \<open>joystickGetAnalog(1, 3)\<close> and \<open>analogRead\<close> for the
  value of \<open>analogRead(inputChannel)\<close>; both calls return a C \<open>int\<close>.
\<close>

record cycle_inputs =
  pressed :: "nat \<Rightarrow> joy_dir \<Rightarrow> bool"
  joystickGetAnalog :: int
  analogRead :: int

subsection \<open>The local variables\<close>

text \<open>
  The field \<open>idx\<close> is the variable \<open>i\<close> of the source, the index into \<open>increments\<close>;
  \<open>pid_input\<close> and \<open>pid_output\<close> are its variables \<open>input\<close> and \<open>output\<close>, two words
  that Isabelle reserves.
\<close>

record pid_state =
  isEnabled :: bool
  idx :: "32 word"
  kp :: real
  ki :: real
  kd :: real
  setpoint :: real
  error :: real
  lastError :: real
  pid_input :: real
  pid_output :: real
  proportional :: real
  integral :: real
  derivative :: real

definition integralLimit :: real where
  "integralLimit = 100"

definition inputMin :: int where
  "inputMin = 7"

definition inputMax :: int where
  "inputMax = 4095"

definition outputMin :: int where
  "outputMin = - 60"

definition outputMax :: int where
  "outputMax = 60"

text \<open>The declarations of lines 61 to 96.\<close>

definition init_state :: pid_state where
  "init_state =
     \<lparr> isEnabled = False, idx = 0,
       kp = 0.01, ki = 0.01, kd = 0.01,
       setpoint = 2000,
       error = 0, lastError = 0,
       pid_input = 0, pid_output = 0,
       proportional = 0, integral = 0, derivative = 0 \<rparr>"

text \<open>\<open>float increments[] = { 0.001, 0.01, 0.1 }\<close>, and a read \<open>increments[i]\<close>.\<close>

definition increments :: "real list" where
  "increments = [0.001, 0.01, 0.1]"

definition increments_at :: "32 word \<Rightarrow> real option" where
  "increments_at j =
     (if unat j < length increments then Some (increments ! unat j) else None)"

subsection \<open>Conversions of C\<close>

text \<open>
  A \<open>float\<close> converted to \<open>int\<close> loses its fractional part (truncation towards zero); the
  conversion is undefined when the result does not fit the 32-bit \<open>int\<close>.
\<close>

definition truncate_real :: "real \<Rightarrow> int" where
  "truncate_real x = (if 0 \<le> x then \<lfloor>x\<rfloor> else \<lceil>x\<rceil>)"

definition int_of_float :: "real \<Rightarrow> int option" where
  "int_of_float x =
     (let n = truncate_real x
      in if - (2 ^ 31) \<le> n \<and> n \<le> 2 ^ 31 - 1 then Some n else None)"

text \<open>\<open>int abs(int)\<close> of the C library: undefined at \<open>INT_MIN\<close>.\<close>

definition c_abs :: "int \<Rightarrow> int option" where
  "c_abs n = (if n = - (2 ^ 31) then None else Some \<bar>n\<bar>)"

text \<open>
  \<open>abs(error)\<close> with \<open>error\<close> a \<open>float\<close>: the argument is converted to \<open>int\<close> first, the
  \<open>int\<close> result is converted back to \<open>float\<close> for the comparison with \<open>integralLimit\<close>.
\<close>

definition abs_of_float :: "real \<Rightarrow> real option" where
  "abs_of_float x =
     (case int_of_float x of
        None \<Rightarrow> None
      | Some n \<Rightarrow> (case c_abs n of None \<Rightarrow> None | Some a \<Rightarrow> Some (real_of_int a)))"

subsection \<open>The loop body, block by block\<close>

text \<open>Lines 105 to 109: cycle through increments.\<close>

definition cycle_increments :: "cycle_inputs \<Rightarrow> pid_state \<Rightarrow> pid_state" where
  "cycle_increments inp s =
     (if pressed inp 7 JOY_RIGHT
      then (let j = idx s + 1 in s\<lparr>idx := (if j \<ge> 3 then 0 else j)\<rparr>)
      else s)"

text \<open>Lines 112 to 134: adjust kp, ki, and kd; \<open>inc\<close> is the value of \<open>increments[i]\<close>.\<close>

definition adjust_kp :: "cycle_inputs \<Rightarrow> real \<Rightarrow> pid_state \<Rightarrow> pid_state" where
  "adjust_kp inp inc s =
     (if pressed inp 7 JOY_UP then s\<lparr>kp := kp s + inc\<rparr>
      else if pressed inp 7 JOY_DOWN then s\<lparr>kp := kp s - inc\<rparr>
      else if pressed inp 8 JOY_LEFT then s\<lparr>kp := 0\<rparr>
      else s)"

definition adjust_ki :: "cycle_inputs \<Rightarrow> real \<Rightarrow> pid_state \<Rightarrow> pid_state" where
  "adjust_ki inp inc s =
     (if pressed inp 5 JOY_UP then s\<lparr>ki := ki s + inc\<rparr>
      else if pressed inp 5 JOY_DOWN then s\<lparr>ki := ki s - inc\<rparr>
      else if pressed inp 8 JOY_UP then s\<lparr>ki := 0\<rparr>
      else s)"

definition adjust_kd :: "cycle_inputs \<Rightarrow> real \<Rightarrow> pid_state \<Rightarrow> pid_state" where
  "adjust_kd inp inc s =
     (if pressed inp 6 JOY_UP then s\<lparr>kd := kd s + inc\<rparr>
      else if pressed inp 6 JOY_DOWN then s\<lparr>kd := kd s - inc\<rparr>
      else if pressed inp 8 JOY_RIGHT then s\<lparr>kd := 0\<rparr>
      else s)"

text \<open>Lines 137 to 143: adjust the setpoint and clamp it.\<close>

definition adjust_setpoint :: "cycle_inputs \<Rightarrow> pid_state \<Rightarrow> pid_state" where
  "adjust_setpoint inp s =
     (let sp = setpoint s + real_of_int (joystickGetAnalog inp)
      in s\<lparr>setpoint :=
            (if sp > real_of_int inputMax then real_of_int inputMax
             else if sp < real_of_int inputMin then real_of_int inputMin
             else sp)\<rparr>)"

text \<open>Line 145: get the sensor reading.\<close>

definition read_input :: "cycle_inputs \<Rightarrow> pid_state \<Rightarrow> pid_state" where
  "read_input inp s = s\<lparr>pid_input := real_of_int (analogRead inp)\<rparr>"

text \<open>Lines 150 to 152: pid loop on/off.\<close>

definition toggle_enabled :: "cycle_inputs \<Rightarrow> pid_state \<Rightarrow> pid_state" where
  "toggle_enabled inp s =
     (if pressed inp 8 JOY_DOWN then s\<lparr>isEnabled := \<not> isEnabled s\<rparr> else s)"

text \<open>Lines 155 to 186: pid control.\<close>

definition pid_control :: "pid_state \<Rightarrow> pid_state option" where
  "pid_control s =
     (if isEnabled s then
        (let e = pid_input s - setpoint s
         in case abs_of_float e of
              None \<Rightarrow> None
            | Some a \<Rightarrow>
                (let integ = (if a < integralLimit then integral s + e else 0);
                     d = e - lastError s;
                     out = (kp s * e) + (ki s * integ) + (kd s * d)
                 in Some (s\<lparr> error := e,
                             proportional := e,
                             integral := integ,
                             derivative := d,
                             pid_output :=
                               (if out < real_of_int outputMin then real_of_int outputMin
                                else if out > real_of_int outputMax then real_of_int outputMax
                                else out),
                             lastError := e \<rparr>)))
      else Some (s\<lparr> integral := 0, pid_output := 0 \<rparr>))"

text \<open>
  One pass through the body. The \<open>printf\<close> of line 146 changes no variable, but it reads
  \<open>increments[i]\<close> in every cycle, pressed button or not. The result pairs the variables
  after the pass with the \<open>int\<close> that \<open>motorSet(outputChannel, output)\<close> receives.
\<close>

definition loop_body :: "cycle_inputs \<Rightarrow> pid_state \<Rightarrow> (pid_state \<times> int) option" where
  "loop_body inp s =
     (let s1 = cycle_increments inp s
      in case increments_at (idx s1) of
           None \<Rightarrow> None
         | Some inc \<Rightarrow>
             (let s2 = adjust_kd inp inc (adjust_ki inp inc (adjust_kp inp inc s1));
                  s3 = adjust_setpoint inp s2;
                  s4 = read_input inp s3;
                  s5 = toggle_enabled inp s4
              in case pid_control s5 of
                   None \<Rightarrow> None
                 | Some s6 \<Rightarrow>
                     (case int_of_float (pid_output s6) of
                        None \<Rightarrow> None
                      | Some speed \<Rightarrow> Some (s6, speed))))"

text \<open>
  The loop run for as many cycles as there are inputs, from the variables \<open>s\<close>: the
  variables after each cycle and the speed written to the motor in it, in order.
\<close>

fun run_trace :: "cycle_inputs list \<Rightarrow> pid_state \<Rightarrow> (pid_state \<times> int) list option" where
  "run_trace [] s = Some []"
| "run_trace (inp # inps) s =
     (case loop_body inp s of
        None \<Rightarrow> None
      | Some (s', speed) \<Rightarrow>
          (case run_trace inps s' of
             None \<Rightarrow> None
           | Some tr \<Rightarrow> Some ((s', speed) # tr)))"

text \<open>The inputs of a cycle in which exactly the listed buttons report a pressed edge.\<close>

definition buttons :: "(nat \<times> joy_dir) list \<Rightarrow> nat \<Rightarrow> joy_dir \<Rightarrow> bool" where
  "buttons bs g d = ((g, d) \<in> set bs)"

subsection \<open>Notions of the specification\<close>

text \<open>Clamping a value to the interval from \<open>lo\<close> to \<open>hi\<close>.\<close>

definition spec_clamp :: "real \<Rightarrow> real \<Rightarrow> real \<Rightarrow> real" where
  "spec_clamp lo hi x = max lo (min hi x)"

text \<open>
  The three actions on a gain, the one that is chosen when several controls are pressed
  (increase before decrease before zero) and what an action does to the gain.
\<close>

datatype gain_action = Increase | Decrease | Zero

definition spec_chosen_action :: "bool \<Rightarrow> bool \<Rightarrow> bool \<Rightarrow> gain_action option" where
  "spec_chosen_action up down zero =
     (if up then Some Increase
      else if down then Some Decrease
      else if zero then Some Zero
      else None)"

fun spec_apply_action :: "gain_action option \<Rightarrow> real \<Rightarrow> real \<Rightarrow> real" where
  "spec_apply_action None inc g = g"
| "spec_apply_action (Some Increase) inc g = g + inc"
| "spec_apply_action (Some Decrease) inc g = g - inc"
| "spec_apply_action (Some Zero) inc g = 0"

text \<open>
  The error computed by the most recent enabled cycle of a trace, and \<open>e0\<close> when no cycle
  of the trace was enabled.
\<close>

fun spec_last_enabled_error :: "real \<Rightarrow> (pid_state \<times> int) list \<Rightarrow> real" where
  "spec_last_enabled_error e0 [] = e0"
| "spec_last_enabled_error e0 ((s, speed) # tr) =
     spec_last_enabled_error (if isEnabled s then error s else e0) tr"

section \<open>Properties of the conversions and of the single blocks\<close>

lemma idx_cases:
  assumes "(w::32 word) < 3"
  shows "w = 0 \<or> w = 1 \<or> w = 2"
proof -
  have "unat w < 3"
    using assms by (simp add: word_less_nat_alt)
  then have "unat w = 0 \<or> unat w = 1 \<or> unat w = 2"
    by arith
  then show ?thesis
    by (auto simp: word_unat_eq_iff)
qed

lemma increments_at_Some: "j < 3 \<Longrightarrow> increments_at j = Some (increments ! unat j)"
  by (simp add: increments_at_def increments_def word_less_nat_alt)

text \<open>Truncation towards zero keeps a value between two integers of opposite sign.\<close>

lemma truncate_real_between:
  assumes "real_of_int lo \<le> x" and "x \<le> real_of_int hi" and "lo \<le> 0" and "0 \<le> hi"
  shows "lo \<le> truncate_real x \<and> truncate_real x \<le> hi"
proof (cases "0 \<le> x")
  case True
  then have "0 \<le> \<lfloor>x\<rfloor>" by simp
  moreover from assms(2) have "\<lfloor>x\<rfloor> \<le> hi" by (simp add: floor_le_iff)
  ultimately show ?thesis using True assms(3) by (simp add: truncate_real_def) linarith
next
  case False
  then have "\<lceil>x\<rceil> \<le> 0" by (simp add: ceiling_le_iff)
  moreover from assms(1) have "lo \<le> \<lceil>x\<rceil>" by (simp add: le_ceiling_iff)
  ultimately show ?thesis using False assms(4) by (simp add: truncate_real_def) linarith
qed

lemma abs_truncate_real: "\<bar>truncate_real x\<bar> = \<lfloor>\<bar>x\<bar>\<rfloor>"
proof (cases "0 \<le> x")
  case True
  then have "0 \<le> \<lfloor>x\<rfloor>" by simp
  with True show ?thesis by (simp add: truncate_real_def)
next
  case False
  then have "\<lceil>x\<rceil> \<le> 0" by (simp add: ceiling_le_iff)
  with False show ?thesis by (simp add: truncate_real_def ceiling_def)
qed

text \<open>
  The test \<open>abs(error) < integralLimit\<close> goes through an \<open>int\<close>, and still decides
  whether the magnitude of the \<open>float\<close> is below 100, the limit being a whole number.
\<close>

lemma abs_of_float_lt:
  assumes "abs_of_float x = Some a"
  shows "a < integralLimit \<longleftrightarrow> \<bar>x\<bar> < 100"
proof -
  from assms have a: "a = real_of_int \<bar>truncate_real x\<bar>"
    by (auto simp: abs_of_float_def int_of_float_def c_abs_def Let_def
        split: if_splits option.splits)
  have "\<lfloor>\<bar>x\<bar>\<rfloor> < 100 \<longleftrightarrow> \<bar>x\<bar> < of_int 100"
    by (rule floor_less_iff)
  then show ?thesis
    by (simp add: a abs_truncate_real integralLimit_def)
qed

lemma int_of_float_0: "int_of_float 0 = Some 0"
  by (simp add: int_of_float_def truncate_real_def)

lemma int_of_float_small:
  assumes "- 60 \<le> x" and "x \<le> 60"
  shows "int_of_float x = Some (truncate_real x)"
    and "- 60 \<le> truncate_real x \<and> truncate_real x \<le> 60"
proof -
  show "- 60 \<le> truncate_real x \<and> truncate_real x \<le> 60"
    using assms by (intro truncate_real_between) simp_all
  then show "int_of_float x = Some (truncate_real x)"
    by (simp add: int_of_float_def Let_def)
qed

lemma spec_clamp_range:
  "lo \<le> hi \<Longrightarrow> lo \<le> spec_clamp lo hi x \<and> spec_clamp lo hi x \<le> hi"
  by (simp add: spec_clamp_def)

text \<open>Each block as one update of the variable it writes.\<close>

lemma cycle_increments_eq:
  "cycle_increments inp s =
     s\<lparr>idx := (if pressed inp 7 JOY_RIGHT
                then (if idx s + 1 \<ge> 3 then 0 else idx s + 1) else idx s)\<rparr>"
  by (simp add: cycle_increments_def Let_def)

lemma adjust_kp_eq:
  "adjust_kp inp inc s =
     s\<lparr>kp := spec_apply_action
                (spec_chosen_action (pressed inp 7 JOY_UP) (pressed inp 7 JOY_DOWN)
                   (pressed inp 8 JOY_LEFT)) inc (kp s)\<rparr>"
  by (simp add: adjust_kp_def spec_chosen_action_def)

lemma adjust_ki_eq:
  "adjust_ki inp inc s =
     s\<lparr>ki := spec_apply_action
                (spec_chosen_action (pressed inp 5 JOY_UP) (pressed inp 5 JOY_DOWN)
                   (pressed inp 8 JOY_UP)) inc (ki s)\<rparr>"
  by (simp add: adjust_ki_def spec_chosen_action_def)

lemma adjust_kd_eq:
  "adjust_kd inp inc s =
     s\<lparr>kd := spec_apply_action
                (spec_chosen_action (pressed inp 6 JOY_UP) (pressed inp 6 JOY_DOWN)
                   (pressed inp 8 JOY_RIGHT)) inc (kd s)\<rparr>"
  by (simp add: adjust_kd_def spec_chosen_action_def)

lemma adjust_setpoint_eq:
  "adjust_setpoint inp s =
     s\<lparr>setpoint := spec_clamp 7 4095 (setpoint s + real_of_int (joystickGetAnalog inp))\<rparr>"
  by (simp add: adjust_setpoint_def spec_clamp_def inputMin_def inputMax_def Let_def)

lemma toggle_enabled_eq:
  "toggle_enabled inp s =
     s\<lparr>isEnabled := (if pressed inp 8 JOY_DOWN then \<not> isEnabled s else isEnabled s)\<rparr>"
  by (simp add: toggle_enabled_def)

lemmas block_eqs =
  cycle_increments_eq adjust_kp_eq adjust_ki_eq adjust_kd_eq adjust_setpoint_eq
  toggle_enabled_eq read_input_def

lemma cycle_increments_idx:
  assumes "idx s < 3"
  shows "idx (cycle_increments inp s) < 3"
    and "unat (idx (cycle_increments inp s))
         = (if pressed inp 7 JOY_RIGHT then (unat (idx s) + 1) mod 3 else unat (idx s))"
  using idx_cases [OF assms]
  by (auto simp: cycle_increments_eq word_le_nat_alt word_less_nat_alt)

subsection \<open>The pid control block\<close>

lemma pid_control_disabled:
  "\<not> isEnabled t \<Longrightarrow> pid_control t = Some (t\<lparr>integral := 0, pid_output := 0\<rparr>)"
  by (simp add: pid_control_def)

lemma pid_control_enabled:
  assumes "pid_control t = Some s'" and "isEnabled t"
  shows "s' = t\<lparr> error := pid_input t - setpoint t,
                 proportional := pid_input t - setpoint t,
                 integral := (if \<bar>pid_input t - setpoint t\<bar> < 100
                              then integral t + (pid_input t - setpoint t) else 0),
                 derivative := pid_input t - setpoint t - lastError t,
                 pid_output := spec_clamp (- 60) 60
                    (kp t * (pid_input t - setpoint t)
                     + ki t * (if \<bar>pid_input t - setpoint t\<bar> < 100
                               then integral t + (pid_input t - setpoint t) else 0)
                     + kd t * (pid_input t - setpoint t - lastError t)),
                 lastError := pid_input t - setpoint t \<rparr>"
proof -
  from assms obtain a where a: "abs_of_float (pid_input t - setpoint t) = Some a"
    by (auto simp: pid_control_def Let_def split: option.splits)
  have lt: "a < integralLimit \<longleftrightarrow> \<bar>pid_input t - setpoint t\<bar> < 100"
    by (rule abs_of_float_lt [OF a])
  have cl: "(if x < real_of_int outputMin then real_of_int outputMin
             else if x > real_of_int outputMax then real_of_int outputMax else x)
            = spec_clamp (- 60) 60 x" for x
    by (simp add: spec_clamp_def outputMin_def outputMax_def)
  from assms a show ?thesis
    by (simp add: pid_control_def Let_def lt cl)
qed

lemma pid_control_isEnabled:
  "pid_control t = Some s' \<Longrightarrow> isEnabled s' = isEnabled t"
  by (cases "isEnabled t") (auto simp: pid_control_disabled dest: pid_control_enabled)

subsection \<open>One cycle\<close>

text \<open>A cycle with a result went through every block; \<open>t\<close> is what pid control started from.\<close>

lemma loop_body_SomeE:
  assumes "loop_body inp s = Some (s', speed)"
  obtains inc t where
    "increments_at (idx (cycle_increments inp s)) = Some inc"
    "t = toggle_enabled inp (read_input inp (adjust_setpoint inp
           (adjust_kd inp inc (adjust_ki inp inc (adjust_kp inp inc (cycle_increments inp s))))))"
    "pid_control t = Some s'"
    "int_of_float (pid_output s') = Some speed"
  using assms by (auto simp: loop_body_def Let_def split: option.splits)

text \<open>What a cycle does to the index, the gains, the setpoint and the enable flag.\<close>

lemma loop_body_tuning:
  assumes "loop_body inp s = Some (s', speed)"
  shows "idx s' = idx (cycle_increments inp s)"
    and "idx s' < 3"
    and "kp s' = spec_apply_action
            (spec_chosen_action (pressed inp 7 JOY_UP) (pressed inp 7 JOY_DOWN)
               (pressed inp 8 JOY_LEFT)) (increments ! unat (idx s')) (kp s)"
    and "ki s' = spec_apply_action
            (spec_chosen_action (pressed inp 5 JOY_UP) (pressed inp 5 JOY_DOWN)
               (pressed inp 8 JOY_UP)) (increments ! unat (idx s')) (ki s)"
    and "kd s' = spec_apply_action
            (spec_chosen_action (pressed inp 6 JOY_UP) (pressed inp 6 JOY_DOWN)
               (pressed inp 8 JOY_RIGHT)) (increments ! unat (idx s')) (kd s)"
    and "setpoint s' = spec_clamp 7 4095 (setpoint s + real_of_int (joystickGetAnalog inp))"
    and "isEnabled s' = (if pressed inp 8 JOY_DOWN then \<not> isEnabled s else isEnabled s)"
proof -
  from assms obtain inc t where
    inc: "increments_at (idx (cycle_increments inp s)) = Some inc"
    and t: "t = toggle_enabled inp (read_input inp (adjust_setpoint inp
           (adjust_kd inp inc (adjust_ki inp inc (adjust_kp inp inc (cycle_increments inp s))))))"
    and pc: "pid_control t = Some s'"
    by (rule loop_body_SomeE)
  have frame: "idx s' = idx t \<and> kp s' = kp t \<and> ki s' = ki t \<and> kd s' = kd t
      \<and> setpoint s' = setpoint t \<and> isEnabled s' = isEnabled t"
  proof (cases "isEnabled t")
    case True
    show ?thesis
      by (subst (1 2 3 4 5 6) pid_control_enabled [OF pc True]) simp
  next
    case False
    with pc show ?thesis
      by (auto simp: pid_control_disabled)
  qed
  have idx_t: "idx t = idx (cycle_increments inp s)"
    by (simp add: t block_eqs)
  from inc have lt: "idx (cycle_increments inp s) < 3"
    and inc_eq: "inc = increments ! unat (idx (cycle_increments inp s))"
    by (auto simp: increments_at_def increments_def word_less_nat_alt split: if_splits)
  show i: "idx s' = idx (cycle_increments inp s)"
    using frame idx_t by simp
  then show "idx s' < 3"
    using lt by simp
  show "kp s' = spec_apply_action
            (spec_chosen_action (pressed inp 7 JOY_UP) (pressed inp 7 JOY_DOWN)
               (pressed inp 8 JOY_LEFT)) (increments ! unat (idx s')) (kp s)"
    using frame by (simp add: i inc_eq t block_eqs)
  show "ki s' = spec_apply_action
            (spec_chosen_action (pressed inp 5 JOY_UP) (pressed inp 5 JOY_DOWN)
               (pressed inp 8 JOY_UP)) (increments ! unat (idx s')) (ki s)"
    using frame by (simp add: i inc_eq t block_eqs)
  show "kd s' = spec_apply_action
            (spec_chosen_action (pressed inp 6 JOY_UP) (pressed inp 6 JOY_DOWN)
               (pressed inp 8 JOY_RIGHT)) (increments ! unat (idx s')) (kd s)"
    using frame by (simp add: i inc_eq t block_eqs)
  show "setpoint s' = spec_clamp 7 4095 (setpoint s + real_of_int (joystickGetAnalog inp))"
    using frame by (simp add: t block_eqs)
  show "isEnabled s' = (if pressed inp 8 JOY_DOWN then \<not> isEnabled s else isEnabled s)"
    using frame by (simp add: t block_eqs)
qed


lemma loop_body_lastError:
  assumes "loop_body inp s = Some (s', speed)"
  shows "lastError s' = (if isEnabled s' then error s' else lastError s)"
proof -
  from assms obtain inc t where
    t: "t = toggle_enabled inp (read_input inp (adjust_setpoint inp
           (adjust_kd inp inc (adjust_ki inp inc (adjust_kp inp inc (cycle_increments inp s))))))"
    and pc: "pid_control t = Some s'"
    by (rule loop_body_SomeE)
  have le_t: "lastError t = lastError s"
    by (simp add: t block_eqs)
  show ?thesis
  proof (cases "isEnabled t")
    case True
    show ?thesis
      by (subst (1 2 3) pid_control_enabled [OF pc True]) (simp add: True)
  next
    case False
    with pc le_t show ?thesis
      by (auto simp: pid_control_disabled)
  qed
qed

text \<open>
  No cycle runs into undefined behaviour when the index is in range and, should the
  controller be enabled in this cycle, the sensor reading leaves room for the setpoint
  inside the \<open>int\<close> range. A disabled cycle never converts the error.
\<close>

lemma loop_body_defined:
  assumes i: "idx s < 3"
    and range: "(if pressed inp 8 JOY_DOWN then \<not> isEnabled s else isEnabled s) \<Longrightarrow>
                  - (2 ^ 31) + 4096 \<le> analogRead inp \<and> analogRead inp \<le> 2 ^ 31 - 1"
  shows "\<exists>s' speed. loop_body inp s = Some (s', speed)"
proof -
  from cycle_increments_idx(1) [OF i] obtain inc
    where inc: "increments_at (idx (cycle_increments inp s)) = Some inc"
    by (auto dest: increments_at_Some)
  define t where "t = toggle_enabled inp (read_input inp (adjust_setpoint inp
           (adjust_kd inp inc (adjust_ki inp inc (adjust_kp inp inc (cycle_increments inp s))))))"
  have sp: "7 \<le> setpoint t \<and> setpoint t \<le> 4095"
    using spec_clamp_range [of 7 4095] by (simp add: t_def block_eqs)
  have inp: "pid_input t = real_of_int (analogRead inp)"
    by (simp add: t_def block_eqs)
  have en: "isEnabled t = (if pressed inp 8 JOY_DOWN then \<not> isEnabled s else isEnabled s)"
    by (simp add: t_def block_eqs)
  have "\<exists>s'. pid_control t = Some s' \<and> - 60 \<le> pid_output s' \<and> pid_output s' \<le> 60"
  proof (cases "isEnabled t")
    case False
    then show ?thesis by (simp add: pid_control_disabled)
  next
    case True
    let ?e = "pid_input t - setpoint t"
    from True en range
    have "- (2 ^ 31) + 4096 \<le> analogRead inp" and "analogRead inp \<le> 2 ^ 31 - 1"
      by simp_all
    then have "real_of_int (- (2 ^ 31) + 1) \<le> ?e" and "?e \<le> real_of_int (2 ^ 31 - 1)"
      using sp unfolding inp by simp_all
    then have "- (2 ^ 31) + 1 \<le> truncate_real ?e \<and> truncate_real ?e \<le> 2 ^ 31 - 1"
      by (intro truncate_real_between) simp_all
    then have "\<exists>a. abs_of_float ?e = Some a"
      by (simp add: abs_of_float_def int_of_float_def c_abs_def Let_def)
    then obtain a where "abs_of_float ?e = Some a" ..
    with True show ?thesis
      by (simp add: pid_control_def Let_def outputMin_def outputMax_def)
  qed
  then obtain s' where pc: "pid_control t = Some s'"
    and out: "- 60 \<le> pid_output s'" "pid_output s' \<le> 60"
    by blast
  from out have "int_of_float (pid_output s') = Some (truncate_real (pid_output s'))"
    by (rule int_of_float_small)
  with inc pc show ?thesis
    by (simp add: loop_body_def Let_def t_def)
qed

subsection \<open>Runs\<close>

lemma run_trace_length:
  "run_trace inps s = Some tr \<Longrightarrow> length tr = length inps"
  by (induction inps arbitrary: s tr) (auto split: option.splits)

lemma run_trace_Cons:
  assumes "run_trace (inp # inps) s = Some tr"
  obtains s' speed tr' where "loop_body inp s = Some (s', speed)"
    and "run_trace inps s' = Some tr'" and "tr = (s', speed) # tr'"
  using assms by (auto split: option.splits)

text \<open>
  A run from a state with the index in range whose sensor readings stay clear of the
  ends of the \<open>int\<close> range has a result for every one of its cycles.
\<close>

lemma run_trace_defined:
  assumes "idx s < 3"
    and "\<forall>inp \<in> set inps. - (2 ^ 31) + 4096 \<le> analogRead inp \<and> analogRead inp \<le> 2 ^ 31 - 1"
  shows "\<exists>tr. run_trace inps s = Some tr \<and> length tr = length inps"
  using assms
proof (induction inps arbitrary: s)
  case Nil
  show ?case by simp
next
  case (Cons inp inps)
  then obtain s' speed where lb: "loop_body inp s = Some (s', speed)"
    using loop_body_defined [of s inp] by auto
  then have "idx s' < 3"
    by (rule loop_body_tuning(2))
  with Cons obtain tr where "run_trace inps s' = Some tr" and "length tr = length inps"
    by fastforce
  with lb show ?case by simp
qed

text \<open>So has every run from the initial variables on readings of a 12-bit converter.\<close>

lemma run_trace_init_defined:
  assumes "\<forall>inp \<in> set inps. 0 \<le> analogRead inp \<and> analogRead inp \<le> 4095"
  shows "\<exists>tr. run_trace inps init_state = Some tr \<and> length tr = length inps"
proof (rule run_trace_defined)
  show "idx init_state < 3"
    by (simp add: init_state_def)
  from assms
  show "\<forall>inp \<in> set inps. - (2 ^ 31) + 4096 \<le> analogRead inp \<and> analogRead inp \<le> 2 ^ 31 - 1"
    by auto
qed

lemma run_trace_idx:
  "run_trace inps s = Some tr \<Longrightarrow> \<forall>x \<in> set tr. idx (fst x) < 3"
proof (induction inps arbitrary: s tr)
  case Nil
  then show ?case by simp
next
  case (Cons inp inps)
  from Cons.prems obtain s' speed tr' where lb: "loop_body inp s = Some (s', speed)"
    and rest: "run_trace inps s' = Some tr'" and tr: "tr = (s', speed) # tr'"
    by (rule run_trace_Cons)
  from lb have "idx s' < 3"
    by (rule loop_body_tuning(2))
  moreover from rest have "\<forall>x \<in> set tr'. idx (fst x) < 3"
    by (rule Cons.IH)
  ultimately show ?case
    by (simp add: tr)
qed

lemma run_trace_disabled:
  assumes "run_trace inps s = Some tr" and "\<forall>x \<in> set tr. \<not> isEnabled (fst x)"
  shows "\<forall>x \<in> set tr. lastError (fst x) = lastError s"
  using assms
proof (induction inps arbitrary: s tr)
  case Nil
  then show ?case by simp
next
  case (Cons inp inps)
  from Cons.prems(1) obtain s' speed tr' where lb: "loop_body inp s = Some (s', speed)"
    and rest: "run_trace inps s' = Some tr'" and tr: "tr = (s', speed) # tr'"
    by (rule run_trace_Cons)
  from Cons.prems(2) have dis: "\<not> isEnabled s'"
    and dis': "\<forall>x \<in> set tr'. \<not> isEnabled (fst x)"
    by (simp_all add: tr)
  from lb dis have eq: "lastError s' = lastError s"
    by (simp add: loop_body_lastError)
  from Cons.IH [OF rest dis'] show ?case
    by (simp add: tr eq)
qed

lemma run_trace_last_enabled:
  assumes "run_trace inps s = Some tr"
  shows "lastError (fst (last ((s, speed0) # tr))) = spec_last_enabled_error (lastError s) tr"
  using assms
proof (induction inps arbitrary: s speed0 tr)
  case Nil
  then show ?case by simp
next
  case (Cons inp inps)
  from Cons.prems obtain s' speed tr' where lb: "loop_body inp s = Some (s', speed)"
    and rest: "run_trace inps s' = Some tr'" and tr: "tr = (s', speed) # tr'"
    by (rule run_trace_Cons)
  have "lastError (fst (last ((s', speed) # tr'))) = spec_last_enabled_error (lastError s') tr'"
    using rest by (rule Cons.IH)
  then show ?case
    by (simp add: tr loop_body_lastError [OF lb])
qed

text \<open>The definitions that evaluating a cycle on concrete inputs unfolds.\<close>

lemmas eval_defs =
  loop_body_def cycle_increments_def increments_at_def increments_def
  adjust_kp_def adjust_ki_def adjust_kd_def adjust_setpoint_def read_input_def
  toggle_enabled_def pid_control_def abs_of_float_def int_of_float_def c_abs_def
  truncate_real_def integralLimit_def inputMin_def inputMax_def outputMin_def
  outputMax_def buttons_def init_state_def Let_def word_le_nat_alt

section \<open>The claims\<close>

text \<open>
  In every theorem below \<open>s\<close> holds the variables at the start of a cycle, \<open>inp\<close> what the
  cycle reads, \<open>s'\<close> the variables at its end and \<open>speed\<close> the argument of \<open>motorSet\<close>.
  The flag \<open>isEnabled s'\<close> is the one the pid control block tested in that cycle, for the
  block does not write it.
\<close>



text \<open>
  C2. In a cycle that runs with the flag disabled, the integral and the output end at 0
  and the motor receives 0, whatever the gains, the setpoint and the sensor input are.
  Such a cycle always has a result when the index is in range: the sensor reading cannot
  make it undefined.
\<close>

theorem disabled_cycle_zero:
  "(\<forall>inp s s' speed.
      loop_body inp s = Some (s', speed) \<longrightarrow> \<not> isEnabled s' \<longrightarrow>
        integral s' = 0 \<and> pid_output s' = 0 \<and> speed = 0)
   \<and> (\<forall>inp s.
        idx s < 3 \<longrightarrow> \<not> (if pressed inp 8 JOY_DOWN then \<not> isEnabled s else isEnabled s) \<longrightarrow>
          (\<exists>s'. loop_body inp s = Some (s', 0) \<and> \<not> isEnabled s'))"
proof -
  have zero: "integral s' = 0 \<and> pid_output s' = 0 \<and> speed = 0"
    if run: "loop_body inp s = Some (s', speed)" and dis: "\<not> isEnabled s'"
    for inp s s' speed
  proof -
    from run obtain t where
      pc: "pid_control t = Some s'" and sp: "int_of_float (pid_output s') = Some speed"
      by (rule loop_body_SomeE)
    from pc dis have "\<not> isEnabled t"
      by (simp add: pid_control_isEnabled)
    with pc have s': "s' = t\<lparr>integral := 0, pid_output := 0\<rparr>"
      by (simp add: pid_control_disabled)
    from sp show ?thesis
      by (simp add: s' int_of_float_0)
  qed
  have defined: "\<exists>s'. loop_body inp s = Some (s', 0) \<and> \<not> isEnabled s'"
    if i: "idx s < 3"
      and dis: "\<not> (if pressed inp 8 JOY_DOWN then \<not> isEnabled s else isEnabled s)"
    for inp s
  proof -
    from i dis obtain s' speed where run: "loop_body inp s = Some (s', speed)"
      using loop_body_defined [of s inp] by auto
    from dis have "\<not> isEnabled s'"
      by (simp add: loop_body_tuning(7) [OF run])
    with run zero show ?thesis
      by blast
  qed
  from zero defined show ?thesis
    by blast
qed

theorem disabled_cycle_zero_witness:
  "loop_body \<lparr> pressed = buttons [], joystickGetAnalog = 0, analogRead = 1800 \<rparr>
     (init_state\<lparr> kp := 5, integral := 37, pid_output := 12 \<rparr>)
   = Some (init_state\<lparr> kp := 5, integral := 0, pid_output := 0, pid_input := 1800 \<rparr>, 0)
   \<and> \<not> isEnabled (init_state\<lparr> kp := 5, integral := 0, pid_output := 0, pid_input := 1800 \<rparr>)
   \<and> idx (init_state\<lparr> kp := 5, integral := 37, pid_output := 12 \<rparr>) < 3
   \<and> integral (init_state\<lparr> kp := 5, integral := 0, pid_output := 0, pid_input := 1800 \<rparr>) = 0
   \<and> pid_output (init_state\<lparr> kp := 5, integral := 0, pid_output := 0, pid_input := 1800 \<rparr>) = 0"
proof -
  let ?inp = "\<lparr> pressed = buttons [], joystickGetAnalog = 0, analogRead = 1800 \<rparr>"
  let ?s = "init_state\<lparr> kp := 5, integral := 37, pid_output := 12 \<rparr>"
  let ?s' = "init_state\<lparr> kp := 5, integral := 0, pid_output := 0, pid_input := 1800 \<rparr>"
  have run: "loop_body ?inp ?s = Some (?s', 0)"
    by (simp add: eval_defs)
  have dis: "\<not> isEnabled ?s'" and i: "idx ?s < 3"
    by (simp_all add: init_state_def)
  from disabled_cycle_zero run dis have "integral ?s' = 0 \<and> pid_output ?s' = 0"
    by blast
  with run dis i show ?thesis
    by blast
qed



text \<open>
  C4. A pressed edge on the zero control of a gain sets that gain to 0 in that cycle when
  neither the increase nor the decrease control of the same gain is pressed in it; no
  other control has a say. With the increase or the decrease control pressed as well, the
  zero control is not looked at: pressing the increase and the zero control of kp together
  raises kp from 0.01 to 0.011.
\<close>

theorem zero_control_sets_gain_zero:
  assumes "loop_body inp s = Some (s', speed)"
  shows "(pressed inp 8 JOY_LEFT \<and> \<not> pressed inp 7 JOY_UP \<and> \<not> pressed inp 7 JOY_DOWN
            \<longrightarrow> kp s' = 0)
       \<and> (pressed inp 8 JOY_UP \<and> \<not> pressed inp 5 JOY_UP \<and> \<not> pressed inp 5 JOY_DOWN
            \<longrightarrow> ki s' = 0)
       \<and> (pressed inp 8 JOY_RIGHT \<and> \<not> pressed inp 6 JOY_UP \<and> \<not> pressed inp 6 JOY_DOWN
            \<longrightarrow> kd s' = 0)"
  by (simp add: loop_body_tuning(3,4,5) [OF assms] spec_chosen_action_def)

theorem zero_control_sets_gain_zero_witness:
  "loop_body
     \<lparr> pressed = buttons [(8, JOY_LEFT), (8, JOY_UP), (8, JOY_RIGHT), (7, JOY_RIGHT)],
       joystickGetAnalog = 0, analogRead = 0 \<rparr> init_state
   = Some (init_state\<lparr> idx := 1, kp := 0, ki := 0, kd := 0 \<rparr>, 0)
   \<and> kp (init_state\<lparr> idx := 1, kp := 0, ki := 0, kd := 0 \<rparr>) = 0
   \<and> ki (init_state\<lparr> idx := 1, kp := 0, ki := 0, kd := 0 \<rparr>) = 0
   \<and> kd (init_state\<lparr> idx := 1, kp := 0, ki := 0, kd := 0 \<rparr>) = 0"
proof -
  let ?inp = "\<lparr> pressed = buttons [(8, JOY_LEFT), (8, JOY_UP), (8, JOY_RIGHT), (7, JOY_RIGHT)],
       joystickGetAnalog = 0, analogRead = 0 \<rparr>"
  let ?s' = "init_state\<lparr> idx := 1, kp := 0, ki := 0, kd := 0 \<rparr>"
  have run: "loop_body ?inp init_state = Some (?s', 0)"
    by (simp add: eval_defs)
  have "pressed ?inp 8 JOY_LEFT \<and> \<not> pressed ?inp 7 JOY_UP \<and> \<not> pressed ?inp 7 JOY_DOWN"
    and "pressed ?inp 8 JOY_UP \<and> \<not> pressed ?inp 5 JOY_UP \<and> \<not> pressed ?inp 5 JOY_DOWN"
    and "pressed ?inp 8 JOY_RIGHT \<and> \<not> pressed ?inp 6 JOY_UP \<and> \<not> pressed ?inp 6 JOY_DOWN"
    by (simp_all add: buttons_def)
  with zero_control_sets_gain_zero [OF run] have "kp ?s' = 0 \<and> ki ?s' = 0 \<and> kd ?s' = 0"
    by blast
  with run show ?thesis
    by blast
qed

theorem zero_control_overridden:
  "pressed \<lparr> pressed = buttons [(7, JOY_UP), (8, JOY_LEFT)],
              joystickGetAnalog = 0, analogRead = 0 \<rparr> 8 JOY_LEFT
   \<and> loop_body \<lparr> pressed = buttons [(7, JOY_UP), (8, JOY_LEFT)],
                  joystickGetAnalog = 0, analogRead = 0 \<rparr> init_state
       = Some (init_state\<lparr>kp := 0.011\<rparr>, 0)
   \<and> kp (init_state\<lparr>kp := 0.011\<rparr>) \<noteq> 0"
  by (simp add: eval_defs)

text \<open>
  C5. In every cycle each gain undergoes at most one of its three actions, the first
  pressed one in the order increase, decrease, zero; the step is the entry of
  \<open>increments\<close> at the index of this cycle. The new gain is the old one with that single
  action applied, so presses made together are never added up.
\<close>

theorem one_gain_action_per_cycle:
  assumes "loop_body inp s = Some (s', speed)"
  shows "unat (idx s') < length increments
       \<and> kp s' = spec_apply_action
            (spec_chosen_action (pressed inp 7 JOY_UP) (pressed inp 7 JOY_DOWN)
               (pressed inp 8 JOY_LEFT)) (increments ! unat (idx s')) (kp s)
       \<and> ki s' = spec_apply_action
            (spec_chosen_action (pressed inp 5 JOY_UP) (pressed inp 5 JOY_DOWN)
               (pressed inp 8 JOY_UP)) (increments ! unat (idx s')) (ki s)
       \<and> kd s' = spec_apply_action
            (spec_chosen_action (pressed inp 6 JOY_UP) (pressed inp 6 JOY_DOWN)
               (pressed inp 8 JOY_RIGHT)) (increments ! unat (idx s')) (kd s)"
proof -
  have "unat (idx s') < length increments"
    using loop_body_tuning(2) [OF assms] by (simp add: increments_def word_less_nat_alt)
  with loop_body_tuning(3,4,5) [OF assms] show ?thesis
    by simp
qed

theorem one_gain_action_per_cycle_witness:
  "loop_body
     \<lparr> pressed = buttons [(7, JOY_UP), (7, JOY_DOWN), (8, JOY_LEFT),
                          (5, JOY_DOWN), (8, JOY_UP), (8, JOY_RIGHT)],
       joystickGetAnalog = 0, analogRead = 0 \<rparr> init_state
   = Some (init_state\<lparr> kp := 0.011, ki := 0.009, kd := 0 \<rparr>, 0)
   \<and> (0.011 :: real) = spec_apply_action (Some Increase) 0.001 0.01
   \<and> (0.009 :: real) = spec_apply_action (Some Decrease) 0.001 0.01
   \<and> (0 :: real) = spec_apply_action (Some Zero) 0.001 0.01"
proof -
  let ?inp = "\<lparr> pressed = buttons [(7, JOY_UP), (7, JOY_DOWN), (8, JOY_LEFT),
                          (5, JOY_DOWN), (8, JOY_UP), (8, JOY_RIGHT)],
       joystickGetAnalog = 0, analogRead = 0 \<rparr>"
  let ?s' = "init_state\<lparr> kp := 0.011, ki := 0.009, kd := 0 \<rparr>"
  have run: "loop_body ?inp init_state = Some (?s', 0)"
    by (simp add: eval_defs)
  from one_gain_action_per_cycle [OF run] run show ?thesis
    by (simp add: buttons_def spec_chosen_action_def init_state_def increments_def)
qed

text \<open>
  C6. In every cycle, enabled or not, the joystick axis value is added to the setpoint and
  the sum is clamped, so the setpoint ends between 7 and 4095 whatever the axis value and
  the previous setpoint were.
\<close>

theorem setpoint_update_clamped:
  assumes "loop_body inp s = Some (s', speed)"
  shows "setpoint s' = spec_clamp 7 4095 (setpoint s + real_of_int (joystickGetAnalog inp))
       \<and> 7 \<le> setpoint s' \<and> setpoint s' \<le> 4095"
  using spec_clamp_range [of 7 4095 "setpoint s + real_of_int (joystickGetAnalog inp)"]
  by (simp add: loop_body_tuning(6) [OF assms])

theorem setpoint_update_clamped_witness:
  "loop_body \<lparr> pressed = buttons [], joystickGetAnalog = 127, analogRead = 0 \<rparr>
     (init_state\<lparr> setpoint := 4000 \<rparr>)
   = Some (init_state\<lparr> setpoint := 4095 \<rparr>, 0)
   \<and> (4095 :: real) = spec_clamp 7 4095 (4000 + 127)
   \<and> (7 :: real) \<le> 4095"
proof -
  let ?inp = "\<lparr> pressed = buttons [], joystickGetAnalog = 127, analogRead = 0 \<rparr>"
  have run: "loop_body ?inp (init_state\<lparr> setpoint := 4000 \<rparr>)
             = Some (init_state\<lparr> setpoint := 4095 \<rparr>, 0)"
    by (simp add: eval_defs)
  from setpoint_update_clamped [OF run] run show ?thesis
    by simp
qed

text \<open>
  C7. The increment index stays in 0, 1, 2: from such a value a pressed edge of the
  cycle-increment control moves it one step on modulo 3 and no press leaves it alone,
  a cycle ends with the index that this block produced, and every cycle of every run
  from the initial variables ends with an index below 3.
\<close>

theorem increment_index_cycles:
  "(\<forall>inp s. idx s < 3 \<longrightarrow>
       idx (cycle_increments inp s) < 3 \<and>
       unat (idx (cycle_increments inp s))
         = (if pressed inp 7 JOY_RIGHT then (unat (idx s) + 1) mod 3 else unat (idx s)))
   \<and> (\<forall>inp s s' speed. loop_body inp s = Some (s', speed) \<longrightarrow>
         idx s' = idx (cycle_increments inp s))
   \<and> (\<forall>inps tr. run_trace inps init_state = Some tr \<longrightarrow> (\<forall>x \<in> set tr. idx (fst x) < 3))"
proof (intro conjI allI impI)
  fix inp and s :: pid_state
  assume "idx s < 3"
  then show "idx (cycle_increments inp s) < 3"
    and "unat (idx (cycle_increments inp s))
         = (if pressed inp 7 JOY_RIGHT then (unat (idx s) + 1) mod 3 else unat (idx s))"
    by (rule cycle_increments_idx)+
next
  fix inp s s' speed
  assume "loop_body inp s = Some (s', speed)"
  then show "idx s' = idx (cycle_increments inp s)"
    by (rule loop_body_tuning(1))
next
  fix inps tr
  assume "run_trace inps init_state = Some tr"
  then show "\<forall>x \<in> set tr. idx (fst x) < 3"
    by (rule run_trace_idx)
qed

theorem increment_index_cycles_witness:
  "idx (init_state\<lparr> idx := 2 \<rparr>) < 3
   \<and> unat (idx (cycle_increments
        \<lparr> pressed = buttons [(7, JOY_RIGHT)], joystickGetAnalog = 0, analogRead = 0 \<rparr>
        (init_state\<lparr> idx := 2 \<rparr>))) = (2 + 1) mod 3
   \<and> loop_body \<lparr> pressed = buttons [(7, JOY_RIGHT)], joystickGetAnalog = 0, analogRead = 0 \<rparr>
        (init_state\<lparr> idx := 2 \<rparr>) = Some (init_state, 0)
   \<and> run_trace
        [\<lparr> pressed = buttons [(7, JOY_RIGHT)], joystickGetAnalog = 0, analogRead = 0 \<rparr>,
         \<lparr> pressed = buttons [(7, JOY_RIGHT)], joystickGetAnalog = 0, analogRead = 0 \<rparr>]
        init_state
      = Some [(init_state\<lparr> idx := 1 \<rparr>, 0), (init_state\<lparr> idx := 2 \<rparr>, 0)]
   \<and> idx (init_state\<lparr> idx := 1 \<rparr>) < 3"
proof -
  let ?inp = "\<lparr> pressed = buttons [(7, JOY_RIGHT)], joystickGetAnalog = 0, analogRead = 0 \<rparr>"
  let ?s = "init_state\<lparr> idx := 2 \<rparr>"
  let ?tr = "[(init_state\<lparr> idx := 1 \<rparr>, 0 :: int), (init_state\<lparr> idx := 2 \<rparr>, 0)]"
  have i: "idx ?s < 3"
    by (simp add: word_less_nat_alt)
  have p: "pressed ?inp 7 JOY_RIGHT"
    by (simp add: buttons_def)
  have run: "loop_body ?inp ?s = Some (init_state, 0)"
    by (simp add: eval_defs)
  have tr: "run_trace [?inp, ?inp] init_state = Some ?tr"
    by (simp add: eval_defs)
  from increment_index_cycles i p
  have 1: "unat (idx (cycle_increments ?inp ?s)) = (unat (idx ?s) + 1) mod 3"
    by simp
  from increment_index_cycles run
  have 2: "idx init_state = idx (cycle_increments ?inp ?s)"
    by blast
  from increment_index_cycles tr have "\<forall>x \<in> set ?tr. idx (fst x) < 3"
    by blast
  then have 3: "idx (init_state\<lparr> idx := 1 \<rparr>) < 3"
    by simp
  from i 1 run tr 3 show ?thesis
    by simp
qed

text \<open>
  C8. A cycle that runs with the flag disabled leaves \<open>lastError\<close> as it was. So through
  any run of disabled cycles \<open>lastError\<close> keeps its value, and after any run at all,
  however the flag was toggled in it, \<open>lastError\<close> is the error that the most recent
  enabled cycle computed (its value before the run when no cycle was enabled).
\<close>

theorem lastError_written_only_when_enabled:
  "(\<forall>inp s s' speed. loop_body inp s = Some (s', speed) \<longrightarrow> \<not> isEnabled s' \<longrightarrow>
       lastError s' = lastError s)
   \<and> (\<forall>inps s tr. run_trace inps s = Some tr \<longrightarrow> (\<forall>x \<in> set tr. \<not> isEnabled (fst x)) \<longrightarrow>
         (\<forall>x \<in> set tr. lastError (fst x) = lastError s))
   \<and> (\<forall>inps s tr. run_trace inps s = Some tr \<longrightarrow> tr \<noteq> [] \<longrightarrow>
         lastError (fst (last tr)) = spec_last_enabled_error (lastError s) tr)"
proof (intro conjI allI impI)
  fix inp s s' speed
  assume "loop_body inp s = Some (s', speed)" and "\<not> isEnabled s'"
  then show "lastError s' = lastError s"
    by (simp add: loop_body_lastError)
next
  fix inps s tr
  assume "run_trace inps s = Some tr" and "\<forall>x \<in> set tr. \<not> isEnabled (fst x)"
  then show "\<forall>x \<in> set tr. lastError (fst x) = lastError s"
    by (rule run_trace_disabled)
next
  fix inps s tr
  assume "run_trace inps s = Some tr" and "tr \<noteq> []"
  then show "lastError (fst (last tr)) = spec_last_enabled_error (lastError s) tr"
    using run_trace_last_enabled [of inps s tr 0] by simp
qed

theorem lastError_written_only_when_enabled_witness:
  "run_trace
     [\<lparr> pressed = buttons [(8, JOY_DOWN)], joystickGetAnalog = 0, analogRead = 2050 \<rparr>,
      \<lparr> pressed = buttons [(8, JOY_DOWN)], joystickGetAnalog = 0, analogRead = 2300 \<rparr>,
      \<lparr> pressed = buttons [], joystickGetAnalog = 0, analogRead = 2400 \<rparr>]
     init_state
   = Some
     [(init_state\<lparr> isEnabled := True, pid_input := 2050, error := 50, proportional := 50,
         integral := 50, derivative := 50, pid_output := 1.5, lastError := 50 \<rparr>, 1),
      (init_state\<lparr> isEnabled := False, pid_input := 2300, error := 50, proportional := 50,
         integral := 0, derivative := 50, pid_output := 0, lastError := 50 \<rparr>, 0),
      (init_state\<lparr> isEnabled := False, pid_input := 2400, error := 50, proportional := 50,
         integral := 0, derivative := 50, pid_output := 0, lastError := 50 \<rparr>, 0)]
   \<and> lastError (init_state\<lparr> isEnabled := False, pid_input := 2400, error := 50,
         proportional := 50, integral := 0, derivative := 50, pid_output := 0,
         lastError := 50 \<rparr>) = 50"
proof -
  let ?on = "\<lparr> pressed = buttons [(8, JOY_DOWN)], joystickGetAnalog = 0, analogRead = 2050 \<rparr>"
  let ?off = "\<lparr> pressed = buttons [(8, JOY_DOWN)], joystickGetAnalog = 0, analogRead = 2300 \<rparr>"
  let ?idle = "\<lparr> pressed = buttons [], joystickGetAnalog = 0, analogRead = 2400 \<rparr>"
  let ?s1 = "init_state\<lparr> isEnabled := True, pid_input := 2050, error := 50, proportional := 50,
         integral := 50, derivative := 50, pid_output := 1.5, lastError := 50 \<rparr>"
  let ?s2 = "init_state\<lparr> isEnabled := False, pid_input := 2300, error := 50, proportional := 50,
         integral := 0, derivative := 50, pid_output := 0, lastError := 50 \<rparr>"
  let ?s3 = "init_state\<lparr> isEnabled := False, pid_input := 2400, error := 50, proportional := 50,
         integral := 0, derivative := 50, pid_output := 0, lastError := 50 \<rparr>"
  have c1: "loop_body ?on init_state = Some (?s1, 1)"
    by (simp add: eval_defs)
  have c2: "loop_body ?off ?s1 = Some (?s2, 0)"
    by (simp add: eval_defs)
  have c3: "loop_body ?idle ?s2 = Some (?s3, 0)"
    by (simp add: eval_defs)
  have tr: "run_trace [?on, ?off, ?idle] init_state = Some [(?s1, 1), (?s2, 0), (?s3, 0)]"
    by (simp only: run_trace.simps c1 c2 c3 option.case prod.case)
  have tr2: "run_trace [?off, ?idle] ?s1 = Some [(?s2, 0), (?s3, 0)]"
    by (simp only: run_trace.simps c2 c3 option.case prod.case)
  have dis: "\<not> isEnabled ?s2" "\<forall>x \<in> set [(?s2, 0 :: int), (?s3, 0)]. \<not> isEnabled (fst x)"
    by simp_all
  from lastError_written_only_when_enabled c2 dis(1) have "lastError ?s2 = lastError ?s1"
    by blast
  moreover from lastError_written_only_when_enabled tr2 dis(2)
  have "\<forall>x \<in> set [(?s2, 0 :: int), (?s3, 0)]. lastError (fst x) = lastError ?s1"
    by blast
  moreover from lastError_written_only_when_enabled tr
  have "lastError (fst (last [(?s1, 1 :: int), (?s2, 0), (?s3, 0)]))
        = spec_last_enabled_error (lastError init_state) [(?s1, 1), (?s2, 0), (?s3, 0)]"
    by blast
  ultimately show ?thesis
    using tr by simp
qed

text \<open>
  C10. Before the first cycle the controller is disabled, the increment index is 0 and so
  selects the step 0.001, the three gains are 0.01, the setpoint is 2000, and the error,
  \<open>lastError\<close>, the integral and the output are 0.
\<close>

theorem initial_state:
  "isEnabled init_state = False
   \<and> idx init_state = 0
   \<and> increments_at (idx init_state) = Some 0.001
   \<and> kp init_state = 0.01 \<and> ki init_state = 0.01 \<and> kd init_state = 0.01
   \<and> setpoint init_state = 2000
   \<and> error init_state = 0 \<and> lastError init_state = 0
   \<and> integral init_state = 0 \<and> pid_output init_state = 0"
  by (simp add: init_state_def increments_at_def increments_def)

end
